theory Spec2Isabelle
  imports
    Main
    "HOL-Library.Char_ord"
    "HOL-Library.List_Lexorder"
    "HOL-Library.AList"
    "HOL-Library.Multiset"
begin

section \<open>Fractional indexing: the Indexer and its accessors\<close>

text \<open>
  The embedding follows \<^verbatim>\<open>src/fractionalindex/fractionalindex.py\<close>.
  A KEY is a Python \<^verbatim>\<open>str\<close>; Python compares strings lexicographically by code
  point, which is the order of \<open>char list\<close> given by \<open>Char_ord\<close> and
  \<open>List_Lexorder\<close>. A Python value that may be \<^verbatim>\<open>None\<close> is an \<open>option\<close>.
  An exception is a value of \<open>error\<close>; a function that may raise returns
  \<open>error + 'a\<close> with \<open>Inl\<close> for the exception.
\<close>

type_synonym key = string

datatype error = TypeError | KeyError | IndexError | InvalidOrder

subsection \<open>The sorted list under ManagedListAccessor\<close>

text \<open>
  Modelled from the spec: \<^verbatim>\<open>ManagedListAccessor\<close> extends \<^verbatim>\<open>SortedList\<close> of the
  package \<^verbatim>\<open>sortedcontainers\<close>, whose source is not among the repository's files.
  The spec (section 4.5) describes it as a maintained sorted collection of keys with
  insertion and binary search (rank queries). The state is the list of stored keys in
  ascending order, duplicates kept. \<open>bisect_left\<close> is the leftmost and \<open>bisect_right\<close>
  the rightmost position at which the value could be inserted; both answer \<open>0\<close> on an
  empty list before comparing anything, and otherwise compare the value with stored
  keys, which Python refuses with \<^verbatim>\<open>TypeError\<close> when the value is \<^verbatim>\<open>None\<close>.
\<close>

definition SortedList :: "key list \<Rightarrow> key list" where
  "SortedList iterable = sort iterable"

definition SortedList_add :: "key list \<Rightarrow> key \<Rightarrow> key list" where
  "SortedList_add xs v = insort v xs"

definition bisect_left :: "key list \<Rightarrow> key option \<Rightarrow> error + nat" where
  "bisect_left xs v =
     (if xs = [] then Inr 0
      else case v of
        None \<Rightarrow> Inl TypeError
      | Some k \<Rightarrow> Inr (length (takeWhile (\<lambda>x. x < k) xs)))"

definition bisect_right :: "key list \<Rightarrow> key option \<Rightarrow> error + nat" where
  "bisect_right xs v =
     (if xs = [] then Inr 0
      else case v of
        None \<Rightarrow> Inl TypeError
      | Some k \<Rightarrow> Inr (length (takeWhile (\<lambda>x. x \<le> k) xs)))"

definition getitem :: "key list \<Rightarrow> int \<Rightarrow> error + key" where
  \<comment> \<open>\<^verbatim>\<open>self[i]\<close>: positions \<open>0\<close> up to \<open>len - 1\<close>, and \<open>- 1\<close> down to \<open>- len\<close> from the end.\<close>
  "getitem xs i =
     (if 0 \<le> i \<and> i < int (length xs) then Inr (xs ! nat i)
      else if i < 0 \<and> - int (length xs) \<le> i then Inr (xs ! nat (int (length xs) + i))
      else Inl IndexError)"

subsection \<open>ManagedListAccessor\<close>

definition ManagedListAccessor_after :: "key list \<Rightarrow> key option \<Rightarrow> error + key option" where
  "ManagedListAccessor_after xs item =
     (case bisect_right xs item of
        Inl e \<Rightarrow> Inl e
      | Inr i \<Rightarrow>
          if i < length xs
          then (case getitem xs (int i) of Inl e \<Rightarrow> Inl e | Inr k \<Rightarrow> Inr (Some k))
          else Inr None)"

definition ManagedListAccessor_before :: "key list \<Rightarrow> key option \<Rightarrow> error + key option" where
  "ManagedListAccessor_before xs item =
     (case bisect_left xs item of
        Inl e \<Rightarrow> Inl e
      | Inr j \<Rightarrow>
          (let i = int j - 1
           in if i \<ge> 0
              then (case getitem xs i of Inl e \<Rightarrow> Inl e | Inr k \<Rightarrow> Inr (Some k))
              else Inr None))"

definition ManagedListAccessor_first :: "key list \<Rightarrow> error + key option" where
  "ManagedListAccessor_first xs =
     (if xs \<noteq> []
      then (case getitem xs 0 of Inl e \<Rightarrow> Inl e | Inr k \<Rightarrow> Inr (Some k))
      else Inr None)"

definition ManagedListAccessor_last :: "key list \<Rightarrow> error + key option" where
  "ManagedListAccessor_last xs =
     (if xs \<noteq> []
      then (case getitem xs (- 1) of Inl e \<Rightarrow> Inl e | Inr k \<Rightarrow> Inr (Some k))
      else Inr None)"

subsection \<open>The accessor protocol and the Indexer\<close>

text \<open>
  An Indexer holds any object with the methods \<^verbatim>\<open>first\<close>, \<^verbatim>\<open>last\<close>, \<^verbatim>\<open>before\<close> and
  \<^verbatim>\<open>after\<close>. The record holds what the four methods answer on the backend as it
  stands; \<^verbatim>\<open>Indexer.insert\<close> only reads it.
\<close>

record 'n accessor =
  acc_first :: "error + 'n option"
  acc_last :: "error + 'n option"
  acc_before :: "'n option \<Rightarrow> error + 'n option"
  acc_after :: "'n option \<Rightarrow> error + 'n option"

definition ManagedListAccessor :: "key list \<Rightarrow> key accessor" where
  "ManagedListAccessor xs =
     \<lparr> acc_first = ManagedListAccessor_first xs,
       acc_last = ManagedListAccessor_last xs,
       acc_before = ManagedListAccessor_before xs,
       acc_after = ManagedListAccessor_after xs \<rparr>"

text \<open>The default \<^verbatim>\<open>name_to_key = lambda x:x\<close>.\<close>

definition name_to_key_default :: "key option \<Rightarrow> error + key option" where
  "name_to_key_default x = Inr x"

text \<open>
  The \<^verbatim>\<open>match (after, before)\<close> statement of \<^verbatim>\<open>Indexer.insert\<close> (lines 25 to 28):
  the pair of names after the three cases have run; a pair of two given names matches
  no case. The arguments \<^verbatim>\<open>after\<close> and \<^verbatim>\<open>before\<close> are written \<open>after_name\<close> and
  \<open>before_name\<close>.
\<close>

definition Indexer_resolve ::
  "'n accessor \<Rightarrow> 'n option \<Rightarrow> 'n option \<Rightarrow> error + ('n option \<times> 'n option)" where
  "Indexer_resolve items after_name before_name =
     (case (after_name, before_name) of
        (None, None) \<Rightarrow>
          (case acc_last items of Inl e \<Rightarrow> Inl e | Inr a \<Rightarrow> Inr (a, before_name))
      | (None, Some _) \<Rightarrow>
          (case acc_before items before_name of Inl e \<Rightarrow> Inl e | Inr a \<Rightarrow> Inr (a, before_name))
      | (Some _, None) \<Rightarrow>
          (case acc_after items after_name of Inl e \<Rightarrow> Inl e | Inr b \<Rightarrow> Inr (after_name, b))
      | (Some _, Some _) \<Rightarrow> Inr (after_name, before_name))"

text \<open>
  The two arguments of the call on line 29, evaluated left to right:
  \<^verbatim>\<open>self.name_to_key(after)\<close>, then \<^verbatim>\<open>self.name_to_key(before)\<close>.
\<close>

definition Indexer_bounds ::
  "'n accessor \<Rightarrow> ('n option \<Rightarrow> error + key option) \<Rightarrow> 'n option \<Rightarrow> 'n option
     \<Rightarrow> error + (key option \<times> key option)" where
  "Indexer_bounds items name_to_key after_name before_name =
     (case Indexer_resolve items after_name before_name of
        Inl e \<Rightarrow> Inl e
      | Inr (a, b) \<Rightarrow>
          (case name_to_key a of
             Inl e \<Rightarrow> Inl e
           | Inr lo \<Rightarrow>
               (case name_to_key b of Inl e \<Rightarrow> Inl e | Inr hi \<Rightarrow> Inr (lo, hi))))"

text \<open>
  \<^verbatim>\<open>Indexer.insert\<close>. The key generator \<^verbatim>\<open>generate_key_between\<close> is imported from
  another package; it is the parameter \<open>generate\<close>.
\<close>

definition Indexer_insert ::
  "'n accessor \<Rightarrow> ('n option \<Rightarrow> error + key option)
     \<Rightarrow> (key option \<Rightarrow> key option \<Rightarrow> error + key)
     \<Rightarrow> 'n option \<Rightarrow> 'n option \<Rightarrow> error + key" where
  "Indexer_insert items name_to_key generate after_name before_name =
     (case Indexer_bounds items name_to_key after_name before_name of
        Inl e \<Rightarrow> Inl e
      | Inr (lo, hi) \<Rightarrow> generate lo hi)"

definition Indexer_insert_at_start ::
  "'n accessor \<Rightarrow> ('n option \<Rightarrow> error + key option)
     \<Rightarrow> (key option \<Rightarrow> key option \<Rightarrow> error + key) \<Rightarrow> error + key" where
  "Indexer_insert_at_start items name_to_key generate =
     (case acc_first items of
        Inl e \<Rightarrow> Inl e
      | Inr f \<Rightarrow> Indexer_insert items name_to_key generate None f)"

definition Indexer_insert_at_end ::
  "'n accessor \<Rightarrow> ('n option \<Rightarrow> error + key option)
     \<Rightarrow> (key option \<Rightarrow> key option \<Rightarrow> error + key) \<Rightarrow> error + key" where
  "Indexer_insert_at_end items name_to_key generate =
     (case acc_last items of
        Inl e \<Rightarrow> Inl e
      | Inr l \<Rightarrow> Indexer_insert items name_to_key generate l None)"

text \<open>
  \<^verbatim>\<open>Indexer.__iter__\<close>: the loop of lines 34 to 37, as the list that \<^verbatim>\<open>list(idx)\<close>
  collects. The loop runs as long as \<^verbatim>\<open>after\<close> answers a name, so the model counts
  the calls of \<^verbatim>\<open>after\<close> it may make: \<open>None\<close> is a loop that has not ended within
  \<open>fuel\<close> calls, \<open>Some (Inl e)\<close> an exception raised by the accessor.
\<close>

fun Indexer_iter_from :: "nat \<Rightarrow> 'n accessor \<Rightarrow> 'n option \<Rightarrow> (error + 'n list) option" where
  "Indexer_iter_from fuel items None = Some (Inr [])"
| "Indexer_iter_from 0 items (Some c) = None"
| "Indexer_iter_from (Suc fuel) items (Some c) =
     (case acc_after items (Some c) of
        Inl e \<Rightarrow> Some (Inl e)
      | Inr nxt \<Rightarrow>
          (case Indexer_iter_from fuel items nxt of
             None \<Rightarrow> None
           | Some (Inl e) \<Rightarrow> Some (Inl e)
           | Some (Inr ys) \<Rightarrow> Some (Inr (c # ys))))"

definition Indexer_iter :: "nat \<Rightarrow> 'n accessor \<Rightarrow> (error + 'n list) option" where
  "Indexer_iter fuel items =
     (case acc_first items of
        Inl e \<Rightarrow> Some (Inl e)
      | Inr current \<Rightarrow> Indexer_iter_from fuel items current)"

subsection \<open>ManagedListIndexer\<close>

text \<open>
  The indexer that owns its list. The state is the sorted key list; every operation
  returns its result together with the list afterwards. An exception raised by
  \<^verbatim>\<open>Indexer.insert\<close> leaves before \<^verbatim>\<open>self.lst.add\<close> runs.
\<close>

definition ManagedListIndexer :: "key list \<Rightarrow> key list" where
  "ManagedListIndexer keys = SortedList keys"

definition ManagedListIndexer_insert ::
  "(key option \<Rightarrow> key option \<Rightarrow> error + key) \<Rightarrow> key list \<Rightarrow> key option \<Rightarrow> key option
     \<Rightarrow> (error + key) \<times> key list" where
  "ManagedListIndexer_insert generate lst after_name before_name =
     (case Indexer_insert (ManagedListAccessor lst) name_to_key_default generate after_name before_name of
        Inl e \<Rightarrow> (Inl e, lst)
      | Inr new_idx \<Rightarrow> (Inr new_idx, SortedList_add lst new_idx))"

text \<open>
  \<^verbatim>\<open>insert_at_start\<close> and \<^verbatim>\<open>insert_at_end\<close> are inherited; their \<^verbatim>\<open>self.insert\<close> is
  the overriding \<^verbatim>\<open>ManagedListIndexer.insert\<close>.
\<close>

definition ManagedListIndexer_insert_at_start ::
  "(key option \<Rightarrow> key option \<Rightarrow> error + key) \<Rightarrow> key list \<Rightarrow> (error + key) \<times> key list" where
  "ManagedListIndexer_insert_at_start generate lst =
     (case ManagedListAccessor_first lst of
        Inl e \<Rightarrow> (Inl e, lst)
      | Inr f \<Rightarrow> ManagedListIndexer_insert generate lst None f)"

definition ManagedListIndexer_insert_at_end ::
  "(key option \<Rightarrow> key option \<Rightarrow> error + key) \<Rightarrow> key list \<Rightarrow> (error + key) \<times> key list" where
  "ManagedListIndexer_insert_at_end generate lst =
     (case ManagedListAccessor_last lst of
        Inl e \<Rightarrow> (Inl e, lst)
      | Inr l \<Rightarrow> ManagedListIndexer_insert generate lst l None)"

subsection \<open>FileAccessor\<close>

text \<open>
  The directory is the list of its entry names, in the order \<^verbatim>\<open>iterdir\<close> gives them.
  \<^verbatim>\<open>_key_names\<close> fills a dict in that order; a Python dict keeps a key's first
  position and its last value, as \<open>AList.update\<close> does.
\<close>

fun key_names_loop ::
  "(string option \<Rightarrow> error + key option) \<Rightarrow> string list \<Rightarrow> (key \<times> string) list
     \<Rightarrow> error + (key \<times> string) list" where
  "key_names_loop name_to_key [] retval = Inr retval"
| "key_names_loop name_to_key (name # names) retval =
     (case name_to_key (Some name) of
        Inl e \<Rightarrow> Inl e
      | Inr None \<Rightarrow> key_names_loop name_to_key names retval
      | Inr (Some k) \<Rightarrow> key_names_loop name_to_key names (AList.update k name retval))"

definition FileAccessor_key_names ::
  "(string option \<Rightarrow> error + key option) \<Rightarrow> string list \<Rightarrow> error + (key \<times> string) list" where
  "FileAccessor_key_names name_to_key dir = key_names_loop name_to_key dir []"

definition FileAccessor_keys ::
  "(string option \<Rightarrow> error + key option) \<Rightarrow> string list \<Rightarrow> error + key list" where
  "FileAccessor_keys name_to_key dir =
     (case FileAccessor_key_names name_to_key dir of
        Inl e \<Rightarrow> Inl e
      | Inr d \<Rightarrow> Inr (SortedList (map fst d)))"

definition FileAccessor_name_of ::
  "(string option \<Rightarrow> error + key option) \<Rightarrow> string list \<Rightarrow> key option \<Rightarrow> error + string option" where
  \<comment> \<open>\<^verbatim>\<open>None if out_k is None else self._key_names()[out_k]\<close>\<close>
  "FileAccessor_name_of name_to_key dir out_k =
     (case out_k of
        None \<Rightarrow> Inr None
      | Some k \<Rightarrow>
          (case FileAccessor_key_names name_to_key dir of
             Inl e \<Rightarrow> Inl e
           | Inr d \<Rightarrow> (case map_of d k of None \<Rightarrow> Inl KeyError | Some n \<Rightarrow> Inr (Some n))))"

definition FileAccessor_after ::
  "(string option \<Rightarrow> error + key option) \<Rightarrow> string list \<Rightarrow> string option \<Rightarrow> error + string option" where
  "FileAccessor_after name_to_key dir name =
     (case name_to_key name of
        Inl e \<Rightarrow> Inl e
      | Inr in_k \<Rightarrow>
          (case FileAccessor_keys name_to_key dir of
             Inl e \<Rightarrow> Inl e
           | Inr ks \<Rightarrow>
               (case ManagedListAccessor_after ks in_k of
                  Inl e \<Rightarrow> Inl e
                | Inr out_k \<Rightarrow> FileAccessor_name_of name_to_key dir out_k)))"

definition FileAccessor_before ::
  "(string option \<Rightarrow> error + key option) \<Rightarrow> string list \<Rightarrow> string option \<Rightarrow> error + string option" where
  "FileAccessor_before name_to_key dir name =
     (case name_to_key name of
        Inl e \<Rightarrow> Inl e
      | Inr in_k \<Rightarrow>
          (case FileAccessor_keys name_to_key dir of
             Inl e \<Rightarrow> Inl e
           | Inr ks \<Rightarrow>
               (case ManagedListAccessor_before ks in_k of
                  Inl e \<Rightarrow> Inl e
                | Inr out_k \<Rightarrow> FileAccessor_name_of name_to_key dir out_k)))"

definition FileAccessor_first ::
  "(string option \<Rightarrow> error + key option) \<Rightarrow> string list \<Rightarrow> error + string option" where
  "FileAccessor_first name_to_key dir =
     (case FileAccessor_keys name_to_key dir of
        Inl e \<Rightarrow> Inl e
      | Inr ks \<Rightarrow>
          (case ManagedListAccessor_first ks of
             Inl e \<Rightarrow> Inl e
           | Inr in_k \<Rightarrow> FileAccessor_name_of name_to_key dir in_k))"

definition FileAccessor_last ::
  "(string option \<Rightarrow> error + key option) \<Rightarrow> string list \<Rightarrow> error + string option" where
  "FileAccessor_last name_to_key dir =
     (case FileAccessor_keys name_to_key dir of
        Inl e \<Rightarrow> Inl e
      | Inr ks \<Rightarrow>
          (case ManagedListAccessor_last ks of
             Inl e \<Rightarrow> Inl e
           | Inr in_k \<Rightarrow> FileAccessor_name_of name_to_key dir in_k))"

definition FileAccessor :: "(string option \<Rightarrow> error + key option) \<Rightarrow> string list \<Rightarrow> string accessor" where
  "FileAccessor name_to_key dir =
     \<lparr> acc_first = FileAccessor_first name_to_key dir,
       acc_last = FileAccessor_last name_to_key dir,
       acc_before = FileAccessor_before name_to_key dir,
       acc_after = FileAccessor_after name_to_key dir \<rparr>"

text \<open>
  The mapping the repository's test of the file indexer passes
  (\<^verbatim>\<open>get_key_from_name\<close> in \<^verbatim>\<open>src/tests/test_fractionalindex.py\<close>): the part of the
  name before the first \<^verbatim>\<open>--\<close>, and \<^verbatim>\<open>None\<close> for \<^verbatim>\<open>None\<close> and for a name without
  \<^verbatim>\<open>--\<close>.
\<close>

fun before_dashes :: "string \<Rightarrow> string option" where
  "before_dashes (c # d # cs) =
     (if c = CHR ''-'' \<and> d = CHR ''-'' then Some []
      else map_option ((#) c) (before_dashes (d # cs)))"
| "before_dashes _ = None"

definition get_key_from_name :: "string option \<Rightarrow> error + key option" where
  "get_key_from_name name =
     (case name of None \<Rightarrow> Inr None | Some n \<Rightarrow> Inr (before_dashes n))"

subsection \<open>Key generation\<close>

text \<open>
  Modelled from the spec: \<^verbatim>\<open>generate_key_between\<close> is imported from the package
  \<^verbatim>\<open>fractional_indexing\<close>, whose source is not among the repository's files. The
  spec (sections 4.1 and 4.2) describes it as a thin facade over the key codec's
  midpoint: with both bounds present and the lower bound not strictly below the upper
  one it fails with \<^verbatim>\<open>InvalidOrder\<close>; with both bounds absent it yields the canonical
  starting key; otherwise it yields the codec's midpoint of the bounds. The spec gives
  no algorithm for the midpoint, which stays a parameter.

  The default alphabet (section 3) is the 62 digits and letters, here in the code-point
  order by which keys are compared. A key starts with an index character of its integer
  part; the index characters are the letters, and the canonical starting key is the
  middle symbol of that integer-part alphabet followed by the smallest digit, the
  spec's \<^verbatim>\<open>"a0"\<close>.
\<close>

definition base_62_digits :: string where
  "base_62_digits = ''0123456789ABCDEFGHIJKLMNOPQRSTUVWXYZabcdefghijklmnopqrstuvwxyz''"

definition integer_part_alphabet :: string where
  "integer_part_alphabet = drop 10 base_62_digits"

definition start_key :: key where
  "start_key =
     [integer_part_alphabet ! (length integer_part_alphabet div 2), hd base_62_digits]"

definition generate_key_between ::
  "(key option \<Rightarrow> key option \<Rightarrow> key) \<Rightarrow> key option \<Rightarrow> key option \<Rightarrow> error + key" where
  "generate_key_between midpoint a b =
     (case (a, b) of
        (Some x, Some y) \<Rightarrow> if x < y then Inr (midpoint a b) else Inl InvalidOrder
      | (None, None) \<Rightarrow> Inr start_key
      | _ \<Rightarrow> Inr (midpoint a b))"

subsection \<open>The spec's resolution table\<close>

text \<open>
  The last line of the spec's resolution algorithm (section 4.4), in the spec's words:
  the lower key is \<^verbatim>\<open>name_to_key(after)\<close>, the upper key is \<^verbatim>\<open>name_to_key(before)\<close>, and
  the result is key generation between them.
\<close>

definition between_mapped ::
  "('n option \<Rightarrow> error + key option) \<Rightarrow> (key option \<Rightarrow> key option \<Rightarrow> error + key)
     \<Rightarrow> 'n option \<Rightarrow> 'n option \<Rightarrow> error + key" where
  "between_mapped name_to_key generate a b =
     (case name_to_key a of
        Inl e \<Rightarrow> Inl e
      | Inr lowerKey \<Rightarrow>
          (case name_to_key b of
             Inl e \<Rightarrow> Inl e
           | Inr upperKey \<Rightarrow> generate lowerKey upperKey))"

text \<open>
  A mapping a caller may pass: the identity on names, and a fixed key for \<^verbatim>\<open>None\<close>.
\<close>

definition name_to_key_floor :: "key option \<Rightarrow> error + key option" where
  "name_to_key_floor name = (case name of None \<Rightarrow> Inr (Some ''a0'') | Some n \<Rightarrow> Inr (Some n))"

subsection \<open>The iteration the spec describes\<close>

text \<open>
  In the spec's words (section 4.4): the sequence of names obtained by starting from
  \<^verbatim>\<open>first()\<close> and repeatedly calling \<^verbatim>\<open>after\<close>, ending at the first absent result.
  \<open>first_after_sequence items ys\<close> says that \<open>ys\<close> is that sequence: \<^verbatim>\<open>first()\<close> answers
  its head, \<^verbatim>\<open>after\<close> of each name answers the next one, and \<^verbatim>\<open>after\<close> of the last name
  answers absent.
\<close>

fun first_after_chain :: "'n accessor \<Rightarrow> 'n option \<Rightarrow> 'n list \<Rightarrow> bool" where
  "first_after_chain items cur [] = (cur = None)"
| "first_after_chain items cur (y # ys) =
     (cur = Some y
      \<and> (case acc_after items (Some y) of
           Inl e \<Rightarrow> False
         | Inr nxt \<Rightarrow> first_after_chain items nxt ys))"

definition first_after_sequence :: "'n accessor \<Rightarrow> 'n list \<Rightarrow> bool" where
  "first_after_sequence items ys =
     (case acc_first items of Inl e \<Rightarrow> False | Inr cur \<Rightarrow> first_after_chain items cur ys)"

text \<open>
  The items of a directory with their keys, in the order of the listing: the names
  for which \<^verbatim>\<open>name_to_key\<close> answers a key.
\<close>

fun keyed_names :: "(string option \<Rightarrow> error + key option) \<Rightarrow> string list \<Rightarrow> (key \<times> string) list" where
  "keyed_names name_to_key [] = []"
| "keyed_names name_to_key (name # names) =
     (case name_to_key (Some name) of
        Inr (Some k) \<Rightarrow> (k, name) # keyed_names name_to_key names
      | _ \<Rightarrow> keyed_names name_to_key names)"

text \<open>
  A key generator for the concrete examples below: it appends \<^verbatim>\<open>V\<close> to the lower
  bound and ignores the upper one. It stands for no code of the repository.
\<close>

definition sample_generate :: "key option \<Rightarrow> key option \<Rightarrow> error + key" where
  "sample_generate lo hi = Inr ((case lo of None \<Rightarrow> [] | Some k \<Rightarrow> k) @ ''V'')"

section \<open>Properties\<close>

subsection \<open>Positions in a sorted list\<close>

lemma getitem_nth: "i < length xs \<Longrightarrow> getitem xs (int i) = Inr (xs ! i)"
  by (simp add: getitem_def)

lemma getitem_last: "xs \<noteq> [] \<Longrightarrow> getitem xs (- 1) = Inr (last xs)"
  by (cases xs rule: rev_cases) (simp_all add: getitem_def)

lemma getitem_pred: "0 < j \<Longrightarrow> j \<le> length xs \<Longrightarrow> getitem xs (int j - 1) = Inr (xs ! (j - 1))"
  using getitem_nth [of "j - 1" xs] by (simp add: of_nat_diff)

lemma sorted_hd_Min: "sorted xs \<Longrightarrow> xs \<noteq> [] \<Longrightarrow> xs ! 0 = Min (set xs)"
  by (cases xs) (auto intro!: Min_eqI [symmetric])

lemma sorted_last_Max: "sorted xs \<Longrightarrow> xs \<noteq> [] \<Longrightarrow> last xs = Max (set xs)"
  by (cases xs rule: rev_cases) (auto simp: sorted_append intro!: Max_eqI [symmetric])

lemma after_position:
  fixes k :: "'a::linorder"
  assumes "sorted xs" and "i = length (takeWhile (\<lambda>x. x \<le> k) xs)"
  shows "i < length xs \<Longrightarrow> xs ! i \<in> set xs \<and> k < xs ! i \<and> (\<forall>y\<in>set xs. k < y \<longrightarrow> xs ! i \<le> y)"
    and "\<not> i < length xs \<Longrightarrow> \<forall>y\<in>set xs. y \<le> k"
proof -
  let ?P = "\<lambda>x. x \<le> k"
  {
    assume lt: "i < length xs"
    have a: "k < xs ! i" using nth_length_takeWhile [of ?P xs] lt assms(2) by auto
    have b: "xs ! i \<le> y" if yin: "y \<in> set xs" and ky: "k < y" for y
    proof -
      obtain j where j: "j < length xs" "xs ! j = y" using yin by (auto simp: in_set_conv_nth)
      have "\<not> j < i"
      proof
        assume "j < i"
        then have jl: "j < length (takeWhile ?P xs)" using assms(2) by simp
        have "takeWhile ?P xs ! j = xs ! j" using jl by (rule takeWhile_nth)
        moreover have "takeWhile ?P xs ! j \<in> set (takeWhile ?P xs)" using jl by (rule nth_mem)
        ultimately have "xs ! j \<le> k" by (metis set_takeWhileD)
        with j ky show False by simp
      qed
      then have "i \<le> j" by simp
      then show ?thesis using sorted_nth_mono [OF assms(1), of i j] j by simp
    qed
    show "xs ! i \<in> set xs \<and> k < xs ! i \<and> (\<forall>y\<in>set xs. k < y \<longrightarrow> xs ! i \<le> y)"
      using a b lt by auto
  }
  {
    assume "\<not> i < length xs"
    then have "length (takeWhile ?P xs) = length xs"
      using assms(2) length_takeWhile_le [of ?P xs] by simp
    then have "takeWhile ?P xs = xs"
      by (metis takeWhile_dropWhile_id append_eq_conv_conj take_all le_refl)
    then show "\<forall>y\<in>set xs. y \<le> k" by (metis set_takeWhileD)
  }
qed

lemma before_position:
  fixes k :: "'a::linorder"
  assumes "sorted xs" and "j = length (takeWhile (\<lambda>x. x < k) xs)"
  shows "0 < j \<Longrightarrow> j \<le> length xs \<and> xs ! (j - 1) \<in> set xs \<and> xs ! (j - 1) < k \<and> (\<forall>y\<in>set xs. y < k \<longrightarrow> y \<le> xs ! (j - 1))"
    and "j = 0 \<Longrightarrow> \<forall>y\<in>set xs. k \<le> y"
proof -
  let ?P = "\<lambda>x. x < k"
  have jle: "j \<le> length xs" using assms(2) length_takeWhile_le [of ?P xs] by simp
  have below: "m < j" if "m < length xs" "xs ! m < k" for m
  proof (rule ccontr)
    assume "\<not> m < j"
    then have "j \<le> m" by simp
    then have "j < length xs" using that(1) by simp
    then have "\<not> xs ! j < k" using nth_length_takeWhile [of ?P xs] assms(2) by simp
    moreover have "xs ! j \<le> xs ! m" using sorted_nth_mono [OF assms(1) \<open>j \<le> m\<close> that(1)] .
    ultimately show False using that(2) by simp
  qed
  {
    assume pos: "0 < j"
    then have jl: "j - 1 < length (takeWhile ?P xs)" using assms(2) by simp
    have "takeWhile ?P xs ! (j - 1) = xs ! (j - 1)" using jl by (rule takeWhile_nth)
    moreover have "takeWhile ?P xs ! (j - 1) \<in> set (takeWhile ?P xs)" using jl by (rule nth_mem)
    ultimately have a: "xs ! (j - 1) < k" by (metis set_takeWhileD)
    have b: "y \<le> xs ! (j - 1)" if yin: "y \<in> set xs" and yk: "y < k" for y
    proof -
      obtain m where m: "m < length xs" "xs ! m = y" using yin by (auto simp: in_set_conv_nth)
      then have "m < j" using below yk by simp
      then have "m \<le> j - 1" "j - 1 < length xs" using jle by simp_all
      then show ?thesis using sorted_nth_mono [OF assms(1), of m "j - 1"] m by simp
    qed
    show "j \<le> length xs \<and> xs ! (j - 1) \<in> set xs \<and> xs ! (j - 1) < k \<and> (\<forall>y\<in>set xs. y < k \<longrightarrow> y \<le> xs ! (j - 1))"
      using a b jle pos by auto
  }
  {
    assume "j = 0"
    show "\<forall>y\<in>set xs. k \<le> y"
    proof
      fix y assume "y \<in> set xs"
      then obtain m where m: "m < length xs" "xs ! m = y" by (auto simp: in_set_conv_nth)
      show "k \<le> y" using below [OF m(1)] m(2) \<open>j = 0\<close> by (auto simp: not_less [symmetric])
    qed
  }
qed

lemma ManagedListAccessor_after_Min:
  assumes "sorted xs"
  shows "ManagedListAccessor_after xs (Some k) =
    Inr (if \<exists>x\<in>set xs. k < x then Some (Min {x \<in> set xs. k < x}) else None)"
proof (cases "xs = []")
  case True
  then show ?thesis by (simp add: ManagedListAccessor_after_def bisect_right_def)
next
  case False
  define i where "i = length (takeWhile (\<lambda>x. x \<le> k) xs)"
  note pos = after_position [OF assms i_def]
  show ?thesis
  proof (cases "i < length xs")
    case True
    from pos(1) [OF True] have "Min {x \<in> set xs. k < x} = xs ! i"
      by (intro Min_eqI) auto
    moreover have "\<exists>x\<in>set xs. k < x" using pos(1) [OF True] by blast
    ultimately show ?thesis
      using False True
      by (simp add: ManagedListAccessor_after_def bisect_right_def i_def [symmetric] getitem_nth)
  next
    case gt: False
    from pos(2) [OF gt] have "\<not> (\<exists>x\<in>set xs. k < x)" by (auto simp: not_less)
    then show ?thesis
      using False gt
      by (simp add: ManagedListAccessor_after_def bisect_right_def i_def [symmetric])
  qed
qed

lemma ManagedListAccessor_before_Max:
  assumes "sorted xs"
  shows "ManagedListAccessor_before xs (Some k) =
    Inr (if \<exists>x\<in>set xs. x < k then Some (Max {x \<in> set xs. x < k}) else None)"
proof (cases "xs = []")
  case True
  then show ?thesis by (simp add: ManagedListAccessor_before_def bisect_left_def)
next
  case False
  define j where "j = length (takeWhile (\<lambda>x. x < k) xs)"
  note pos = before_position [OF assms j_def]
  show ?thesis
  proof (cases "0 < j")
    case True
    from pos(1) [OF True] have "Max {x \<in> set xs. x < k} = xs ! (j - 1)"
      by (intro Max_eqI) auto
    moreover have "\<exists>x\<in>set xs. x < k" using pos(1) [OF True] by blast
    moreover have "getitem xs (int j - 1) = Inr (xs ! (j - 1))"
      using getitem_pred [of j xs] True pos(1) [OF True] by simp
    ultimately show ?thesis
      using False True
      by (simp add: ManagedListAccessor_before_def bisect_left_def j_def [symmetric] Let_def)
  next
    case z: False
    then have "j = 0" by simp
    from pos(2) [OF this] have "\<not> (\<exists>x\<in>set xs. x < k)" by (auto simp: not_less)
    then show ?thesis
      using False \<open>j = 0\<close>
      by (simp add: ManagedListAccessor_before_def bisect_left_def j_def [symmetric] Let_def)
  qed
qed

lemma ManagedListAccessor_first_Min:
  "sorted xs \<Longrightarrow> ManagedListAccessor_first xs = Inr (if xs = [] then None else Some (Min (set xs)))"
  using getitem_nth [of 0 xs] sorted_hd_Min [of xs]
  by (auto simp add: ManagedListAccessor_first_def)

lemma ManagedListAccessor_last_Max:
  "sorted xs \<Longrightarrow> ManagedListAccessor_last xs = Inr (if xs = [] then None else Some (Max (set xs)))"
  using getitem_last [of xs] sorted_last_Max [of xs]
  by (auto simp add: ManagedListAccessor_last_def)

subsection \<open>The iteration loop\<close>

lemma iter_from_is_chain:
  "Indexer_iter_from fuel items cur = Some (Inr ys) \<Longrightarrow> first_after_chain items cur ys"
proof (induction fuel items cur arbitrary: ys rule: Indexer_iter_from.induct)
  case (1 fuel items)
  then show ?case by simp
next
  case (2 items c)
  then show ?case by simp
next
  case (3 fuel items c)
  from "3.prems" obtain nxt zs where
    nxt: "acc_after items (Some c) = Inr nxt"
    and rest: "Indexer_iter_from fuel items nxt = Some (Inr zs)"
    and ys: "ys = c # zs"
    by (auto split: sum.splits option.splits)
  from "3.IH" [OF nxt rest] nxt ys show ?case by simp
qed

lemma chain_is_iter_from:
  "first_after_chain items cur ys \<Longrightarrow> length ys \<le> fuel \<Longrightarrow>
     Indexer_iter_from fuel items cur = Some (Inr ys)"
proof (induction ys arbitrary: fuel cur)
  case Nil
  then show ?case by simp
next
  case (Cons y ys)
  from Cons.prems(2) obtain f where f: "fuel = Suc f" "length ys \<le> f"
    by (cases fuel) auto
  from Cons.prems(1) obtain nxt where
    cur: "cur = Some y" and nxt: "acc_after items (Some y) = Inr nxt"
    and rest: "first_after_chain items nxt ys"
    by (auto split: sum.splits)
  from Cons.IH [OF rest f(2)] cur nxt f(1) show ?case by simp
qed

lemma Indexer_iter_iff_sequence:
  assumes "length ys \<le> fuel"
  shows "Indexer_iter fuel items = Some (Inr ys) \<longleftrightarrow> first_after_sequence items ys"
proof
  assume "Indexer_iter fuel items = Some (Inr ys)"
  then show "first_after_sequence items ys"
    by (auto simp: Indexer_iter_def first_after_sequence_def split: sum.splits
        dest: iter_from_is_chain)
next
  assume "first_after_sequence items ys"
  then show "Indexer_iter fuel items = Some (Inr ys)"
    using assms
    by (auto simp: Indexer_iter_def first_after_sequence_def split: sum.splits
        intro: chain_is_iter_from)
qed

lemma greater_Min_eq:
  fixes A :: "'a::linorder set"
  assumes "finite S" "A = {x \<in> S. c < x}" "A \<noteq> {}"
  shows "{x \<in> S. Min A < x} = A - {Min A}"
proof -
  have fin: "finite A" using assms by simp
  have mem: "Min A \<in> A" using fin assms(3) by (rule Min_in)
  have le: "\<And>x. x \<in> A \<Longrightarrow> Min A \<le> x" using fin by (rule Min_le)
  show ?thesis
  proof (intro set_eqI iffI)
    fix x assume "x \<in> {x \<in> S. Min A < x}"
    then show "x \<in> A - {Min A}" using mem assms(2) by auto
  next
    fix x assume "x \<in> A - {Min A}"
    then show "x \<in> {x \<in> S. Min A < x}" using le [of x] assms(2) by auto
  qed
qed

lemma iter_from_managed:
  assumes "sorted xs"
  shows "card {x \<in> set xs. c < x} < fuel \<Longrightarrow>
    Indexer_iter_from fuel (ManagedListAccessor xs) (Some c) =
      Some (Inr (c # sorted_list_of_set {x \<in> set xs. c < x}))"
proof (induction fuel arbitrary: c)
  case 0
  then show ?case by simp
next
  case (Suc fuel)
  define A where "A = {x \<in> set xs. c < x}"
  have fin: "finite A" by (simp add: A_def)
  have aft: "acc_after (ManagedListAccessor xs) (Some c) =
      Inr (if A \<noteq> {} then Some (Min A) else None)"
    using ManagedListAccessor_after_Min [OF assms, of c]
    by (auto simp: ManagedListAccessor_def A_def)
  show ?case
  proof (cases "A = {}")
    case True
    then show ?thesis using aft by (simp add: A_def [symmetric])
  next
    case False
    have rest: "{x \<in> set xs. Min A < x} = A - {Min A}"
      using greater_Min_eq [of "set xs" A c] False by (simp add: A_def)
    have "card (A - {Min A}) < card A"
      using fin False Min_in [OF fin False] by (intro card_Diff1_less)
    then have "card {x \<in> set xs. Min A < x} < fuel"
      using Suc.prems rest by (simp add: A_def [symmetric])
    from Suc.IH [OF this] have
      "Indexer_iter_from fuel (ManagedListAccessor xs) (Some (Min A)) =
         Some (Inr (Min A # sorted_list_of_set (A - {Min A})))"
      by (simp add: rest)
    moreover have "sorted_list_of_set A = Min A # sorted_list_of_set (A - {Min A})"
      using fin False by (rule sorted_list_of_set_nonempty)
    ultimately show ?thesis using aft False by (simp add: A_def [symmetric])
  qed
qed

lemma Indexer_iter_managed:
  assumes "sorted xs" and "length xs \<le> fuel"
  shows "Indexer_iter fuel (ManagedListAccessor xs) = Some (Inr (sorted_list_of_set (set xs)))"
proof (cases "xs = []")
  case True
  then show ?thesis
    by (simp add: Indexer_iter_def ManagedListAccessor_def ManagedListAccessor_first_def)
next
  case False
  define S where "S = set xs"
  have ne: "S \<noteq> {}" "finite S" using False by (simp_all add: S_def)
  have fst: "acc_first (ManagedListAccessor xs) = Inr (Some (Min S))"
    using ManagedListAccessor_first_Min [OF assms(1)] False
    by (simp add: ManagedListAccessor_def S_def)
  have rest: "{x \<in> S. Min S < x} = S - {Min S}"
    using Min_in [OF ne(2) ne(1)] Min_le [OF ne(2)] by (auto simp: less_le)
  have "card S \<le> fuel" using assms(2) card_length [of xs] by (simp add: S_def)
  moreover have "card (S - {Min S}) < card S"
    using ne(2) Min_in [OF ne(2) ne(1)] by (intro card_Diff1_less)
  ultimately have "card {x \<in> set xs. Min S < x} < fuel"
    using rest by (simp add: S_def)
  from iter_from_managed [OF assms(1) this] have
    "Indexer_iter_from fuel (ManagedListAccessor xs) (Some (Min S)) =
       Some (Inr (Min S # sorted_list_of_set (S - {Min S})))"
    using rest by (simp add: S_def)
  moreover have "sorted_list_of_set S = Min S # sorted_list_of_set (S - {Min S})"
    using ne(2) ne(1) by (rule sorted_list_of_set_nonempty)
  ultimately show ?thesis using fst by (simp add: Indexer_iter_def S_def)
qed

lemma Indexer_iter_managed_distinct:
  assumes "sorted xs" "distinct xs" "length xs \<le> fuel"
  shows "Indexer_iter fuel (ManagedListAccessor xs) = Some (Inr xs)"
  using Indexer_iter_managed [OF assms(1,3)] assms(1,2)
  by (simp add: sorted_list_of_set.idem_if_sorted_distinct)

subsection \<open>The iteration loop over a directory\<close>

text \<open>
  When no two names of the directory share a key, the dict of \<^verbatim>\<open>_key_names\<close> holds
  every keyed name of the listing.
\<close>

lemma update_fresh: "k \<notin> fst ` set al \<Longrightarrow> AList.update k v al = al @ [(k, v)]"
  by (induction al) auto

lemma key_names_loop_keyed:
  "key_names_loop name_to_key names acc = Inr d \<Longrightarrow>
   distinct (map fst (acc @ keyed_names name_to_key names)) \<Longrightarrow>
   d = acc @ keyed_names name_to_key names"
proof (induction names arbitrary: acc)
  case Nil
  then show ?case by simp
next
  case (Cons name names)
  show ?case
  proof (cases "name_to_key (Some name)")
    case (Inl e)
    with Cons.prems show ?thesis by simp
  next
    case (Inr r)
    show ?thesis
    proof (cases r)
      case None
      with Inr Cons show ?thesis by simp
    next
      case (Some k)
      with Inr Cons.prems(2) have fresh: "k \<notin> fst ` set acc" by auto
      have loop: "key_names_loop name_to_key names (acc @ [(k, name)]) = Inr d"
        using Cons.prems(1) Inr Some update_fresh [OF fresh] by simp
      have "distinct (map fst ((acc @ [(k, name)]) @ keyed_names name_to_key names))"
        using Cons.prems(2) Inr Some by simp
      from Cons.IH [OF loop this] show ?thesis using Inr Some by simp
    qed
  qed
qed

lemma keyed_names_key:
  "(k, name) \<in> set (keyed_names name_to_key names) \<Longrightarrow> name_to_key (Some name) = Inr (Some k)"
  by (induction names) (auto split: sum.splits option.splits)

lemma length_keyed_names: "length (keyed_names name_to_key names) \<le> length names"
  by (induction names) (auto split: sum.splits option.splits)

lemma map_insort_key:
  "map f (insort_key f x xs) = insort (f x) (map f xs)"
  by (induction xs) auto

lemma map_sort_key: "map f (sort_key f xs) = sort (map f xs)"
  by (induction xs) (simp_all add: map_insort_key)

lemma ManagedListAccessor_after_mem:
  "ManagedListAccessor_after xs (Some k) = Inr (Some k') \<Longrightarrow> k' \<in> set xs"
  by (auto simp: ManagedListAccessor_after_def bisect_right_def getitem_nth split: if_splits)

lemma ManagedListAccessor_first_mem:
  "ManagedListAccessor_first xs = Inr (Some k') \<Longrightarrow> k' \<in> set xs"
  using getitem_nth [of 0 xs]
  by (auto simp: ManagedListAccessor_first_def split: if_splits)

text \<open>
  \<^verbatim>\<open>FileAccessor\<close> answers through the sorted list of its keys, so its iteration is the
  iteration over that list, each key replaced by its name.
\<close>

lemma file_simulation:
  assumes scan: "FileAccessor_key_names name_to_key dir = Inr d"
    and dist: "distinct (map fst d)"
    and keys: "\<And>k n. (k, n) \<in> set d \<Longrightarrow> name_to_key (Some n) = Inr (Some k)"
    and fuel: "length d \<le> fuel"
  shows "Indexer_iter fuel (FileAccessor name_to_key dir) = Some (Inr (map snd (sort_key fst d)))"
proof -
  define ks where "ks = SortedList (map fst d)"
  define nm where "nm = (\<lambda>k. the (map_of d k))"
  have ks_set: "set ks = fst ` set d" by (simp add: ks_def SortedList_def)
  have ks_sorted: "sorted ks" "distinct ks" "length ks = length d"
    using dist by (simp_all add: ks_def SortedList_def)
  have fkeys: "FileAccessor_keys name_to_key dir = Inr ks"
    by (simp add: FileAccessor_keys_def scan ks_def)
  have pair: "(k, nm k) \<in> set d" if "k \<in> set ks" for k
  proof -
    from that ks_set obtain n where n: "(k, n) \<in> set d" by auto
    then have "map_of d k = Some n" using dist by (simp add: map_of_is_SomeI)
    with n show ?thesis by (simp add: nm_def)
  qed
  have name_of: "FileAccessor_name_of name_to_key dir r = Inr (map_option nm r)"
    if "\<forall>k. r = Some k \<longrightarrow> k \<in> set ks" for r
  proof (cases r)
    case None
    then show ?thesis by (simp add: FileAccessor_name_of_def)
  next
    case (Some k)
    with that have "k \<in> set ks" by simp
    from pair [OF this] have "map_of d k = Some (nm k)" using dist by (simp add: map_of_is_SomeI)
    with Some show ?thesis by (simp add: FileAccessor_name_of_def scan)
  qed
  have aft: "acc_after (FileAccessor name_to_key dir) (Some (nm k)) = Inr (map_option nm r)"
    if "k \<in> set ks" "ManagedListAccessor_after ks (Some k) = Inr r" for k r
  proof -
    have "name_to_key (Some (nm k)) = Inr (Some k)" using keys pair [OF that(1)] .
    moreover have "\<forall>k'. r = Some k' \<longrightarrow> k' \<in> set ks"
      using that(2) ManagedListAccessor_after_mem by blast
    ultimately show ?thesis
      using that(2) fkeys name_of [of r]
      by (simp add: FileAccessor_def FileAccessor_after_def)
  qed
  have chain: "first_after_chain (FileAccessor name_to_key dir) (map_option nm cur) (map nm ys)"
    if "first_after_chain (ManagedListAccessor ks) cur ys" "\<forall>c. cur = Some c \<longrightarrow> c \<in> set ks"
    for cur ys
    using that
  proof (induction ys arbitrary: cur)
    case Nil
    then show ?case by simp
  next
    case (Cons y ys)
    from Cons.prems(1) obtain nxt where
      cur: "cur = Some y" and nxt: "ManagedListAccessor_after ks (Some y) = Inr nxt"
      and rest: "first_after_chain (ManagedListAccessor ks) nxt ys"
      by (auto simp: ManagedListAccessor_def split: sum.splits)
    have y: "y \<in> set ks" using cur Cons.prems(2) by simp
    have "\<forall>c. nxt = Some c \<longrightarrow> c \<in> set ks"
      using nxt ManagedListAccessor_after_mem by blast
    from Cons.IH [OF rest this] aft [OF y nxt] cur show ?case by simp
  qed
  have "Indexer_iter fuel (ManagedListAccessor ks) = Some (Inr ks)"
    using Indexer_iter_managed_distinct [OF ks_sorted(1,2)] fuel ks_sorted(3) by simp
  then have "first_after_sequence (ManagedListAccessor ks) ks"
    using Indexer_iter_iff_sequence [of ks fuel "ManagedListAccessor ks"] fuel ks_sorted(3) by simp
  then obtain cur where
    mfirst: "ManagedListAccessor_first ks = Inr cur"
    and mchain: "first_after_chain (ManagedListAccessor ks) cur ks"
    by (auto simp: first_after_sequence_def ManagedListAccessor_def split: sum.splits)
  have cur_mem: "\<forall>c. cur = Some c \<longrightarrow> c \<in> set ks"
    using mfirst ManagedListAccessor_first_mem by blast
  have "acc_first (FileAccessor name_to_key dir) = Inr (map_option nm cur)"
    using mfirst fkeys name_of [OF cur_mem]
    by (simp add: FileAccessor_def FileAccessor_first_def)
  then have "first_after_sequence (FileAccessor name_to_key dir) (map nm ks)"
    using chain [OF mchain cur_mem] by (simp add: first_after_sequence_def)
  then have run: "Indexer_iter fuel (FileAccessor name_to_key dir) = Some (Inr (map nm ks))"
    using Indexer_iter_iff_sequence [of "map nm ks" fuel] fuel ks_sorted(3) by simp
  have "map nm ks = map (nm \<circ> fst) (sort_key fst d)"
    by (simp add: ks_def SortedList_def map_sort_key [symmetric])
  also have "\<dots> = map snd (sort_key fst d)"
  proof (rule map_cong [OF refl])
    fix p assume "p \<in> set (sort_key fst d)"
    then have "(fst p, snd p) \<in> set d" by simp
    then have "map_of d (fst p) = Some (snd p)" using dist by (rule map_of_is_SomeI [rotated])
    then show "(nm \<circ> fst) p = snd p" by (simp add: nm_def)
  qed
  finally show ?thesis using run by simp
qed

lemma Indexer_iter_file:
  assumes scan: "FileAccessor_key_names name_to_key dir = Inr d"
    and dist: "distinct (map fst (keyed_names name_to_key dir))"
    and fuel: "length dir \<le> fuel"
  shows "Indexer_iter fuel (FileAccessor name_to_key dir) =
    Some (Inr (map snd (sort_key fst (keyed_names name_to_key dir))))"
proof -
  have d: "d = keyed_names name_to_key dir"
    using key_names_loop_keyed [of name_to_key dir "[]" d] scan dist
    by (simp add: FileAccessor_key_names_def)
  have "length d \<le> fuel" using fuel length_keyed_names [of name_to_key dir] d by simp
  from file_simulation [OF scan _ _ this] dist keyed_names_key d show ?thesis by blast
qed

subsection \<open>Evaluation rules for concrete lists\<close>

lemmas managed_eval =
  ManagedListAccessor_def ManagedListAccessor_first_def ManagedListAccessor_last_def
  ManagedListAccessor_before_def ManagedListAccessor_after_def bisect_left_def bisect_right_def
  getitem_def

subsection \<open>How insert resolves its arguments\<close>


text \<open>
  Claim C2. \<^verbatim>\<open>Indexer.insert(after, before)\<close> resolves its arguments as the four rows
  of the spec's table. With both absent, \<^verbatim>\<open>after\<close> becomes \<^verbatim>\<open>accessor.last()\<close>, and
  both stay absent when \<^verbatim>\<open>last()\<close> answers absent (an empty collection). With only
  \<^verbatim>\<open>before\<close> given, \<^verbatim>\<open>after\<close> becomes \<^verbatim>\<open>accessor.before(before)\<close>. With only
  \<^verbatim>\<open>after\<close> given, \<^verbatim>\<open>before\<close> becomes \<^verbatim>\<open>accessor.after(after)\<close>. With both given
  they are used as they are: no accessor is asked and nothing is checked. In every row
  the result is key generation applied to the mapped names, and an exception of the
  accessor is the result of the call.
\<close>

theorem Indexer_insert_resolution:
  "Indexer_insert items name_to_key generate None None =
     (case acc_last items of
        Inl e \<Rightarrow> Inl e
      | Inr l \<Rightarrow> between_mapped name_to_key generate l None)
   \<and> (acc_last items = Inr None \<longrightarrow> Indexer_resolve items None None = Inr (None, None))
   \<and> Indexer_insert items name_to_key generate None (Some b) =
     (case acc_before items (Some b) of
        Inl e \<Rightarrow> Inl e
      | Inr a \<Rightarrow> between_mapped name_to_key generate a (Some b))
   \<and> Indexer_insert items name_to_key generate (Some a) None =
     (case acc_after items (Some a) of
        Inl e \<Rightarrow> Inl e
      | Inr b \<Rightarrow> between_mapped name_to_key generate (Some a) b)
   \<and> Indexer_insert items name_to_key generate (Some a) (Some b) =
     between_mapped name_to_key generate (Some a) (Some b)"
  by (simp add: Indexer_insert_def Indexer_bounds_def Indexer_resolve_def between_mapped_def
      split: sum.splits)

theorem Indexer_insert_resolution_witness:
  "Indexer_insert (ManagedListAccessor [''a0'', ''a2'']) name_to_key_default
       sample_generate None None = Inr ''a2V''
   \<and> Indexer_resolve (ManagedListAccessor []) None None = Inr (None, None)
   \<and> Indexer_insert (ManagedListAccessor [''a0'', ''a2'']) name_to_key_default
       sample_generate None (Some ''a2'') = Inr ''a0V''
   \<and> Indexer_insert (ManagedListAccessor [''a0'', ''a2'']) name_to_key_default
       sample_generate (Some ''a0'') None = Inr ''a0V''
   \<and> Indexer_insert (ManagedListAccessor [''a0'', ''a2'']) name_to_key_default
       sample_generate (Some ''a2'') (Some ''a0'') = Inr ''a2V''"
  using Indexer_insert_resolution [of "ManagedListAccessor [''a0'', ''a2'']" name_to_key_default
      sample_generate "''a2''" "''a0''"]
    Indexer_insert_resolution [of "ManagedListAccessor []" name_to_key_default
      sample_generate "''a2''" "''a0''"]
    Indexer_insert_resolution [of "ManagedListAccessor [''a0'', ''a2'']" name_to_key_default
      sample_generate "''a0''" "''a2''"]
  by (simp add: managed_eval between_mapped_def name_to_key_default_def sample_generate_def)

subsection \<open>What insert inherits from the key generator\<close>

text \<open>
  \<^verbatim>\<open>insert\<close> returns what the generator returns for the mapped bounds. A generator
  whose keys lie strictly between its bounds therefore gives an \<^verbatim>\<open>insert\<close> whose key
  lies strictly between the mapped bounds; whether the imported generator is one is
  a property of that package.
\<close>

lemma Indexer_insert_between_bounds:
  assumes gen: "\<And>lo hi k. generate lo hi = Inr k \<Longrightarrow>
      (\<forall>a. lo = Some a \<longrightarrow> a < k) \<and> (\<forall>b. hi = Some b \<longrightarrow> k < b)"
    and bounds: "Indexer_bounds items name_to_key after_name before_name = Inr (lo, hi)"
    and ins: "Indexer_insert items name_to_key generate after_name before_name = Inr k"
  shows "(\<forall>a. lo = Some a \<longrightarrow> a < k) \<and> (\<forall>b. hi = Some b \<longrightarrow> k < b)"
proof -
  from bounds ins have "generate lo hi = Inr k" by (simp add: Indexer_insert_def)
  then show ?thesis by (rule gen)
qed

subsection \<open>Mapping an absent name\<close>

text \<open>
  Claim C7, as stated, fails: \<^verbatim>\<open>insert\<close> calls \<^verbatim>\<open>name_to_key\<close> on the resolved names
  whether they are absent or not. On an empty list the resolved names are both absent,
  and with a mapping that answers the key \<^verbatim>\<open>"a0"\<close> for \<^verbatim>\<open>None\<close> both bounds handed
  to key generation are \<^verbatim>\<open>"a0"\<close>.
\<close>

theorem Indexer_bounds_absent_counterexample:
  "Indexer_resolve (ManagedListAccessor []) None None = Inr (None, None)
   \<and> Indexer_bounds (ManagedListAccessor []) name_to_key_floor None None
       = Inr (Some ''a0'', Some ''a0'')"
  by (simp add: Indexer_bounds_def Indexer_resolve_def managed_eval name_to_key_floor_def)

text \<open>
  Claim C7, amended. The lower key handed to key generation is always
  \<^verbatim>\<open>name_to_key\<close> of the resolved \<^verbatim>\<open>after\<close> name and the upper key always
  \<^verbatim>\<open>name_to_key\<close> of the resolved \<^verbatim>\<open>before\<close> name, also when that name is absent.
  A key derived from an absent name is therefore absent when the mapping sends the
  absent name to the absent key, as the default identity mapping does.
\<close>

theorem Indexer_bounds_mapping:
  assumes "Indexer_resolve items after_name before_name = Inr (a, b)"
    and "Indexer_bounds items name_to_key after_name before_name = Inr (lo, hi)"
  shows "name_to_key a = Inr lo \<and> name_to_key b = Inr hi
    \<and> (a = None \<and> name_to_key None = Inr None \<longrightarrow> lo = None)
    \<and> (b = None \<and> name_to_key None = Inr None \<longrightarrow> hi = None)"
  using assms by (auto simp: Indexer_bounds_def split: sum.splits)

theorem Indexer_bounds_mapping_witness:
  "Indexer_resolve (ManagedListAccessor [''a0'']) None None = Inr (Some ''a0'', None)
   \<and> Indexer_bounds (ManagedListAccessor [''a0'']) name_to_key_default None None
       = Inr (Some ''a0'', None)
   \<and> name_to_key_default (Some ''a0'') = Inr (Some ''a0'')
   \<and> name_to_key_default None = Inr None"
proof -
  have r: "Indexer_resolve (ManagedListAccessor [''a0'']) None None = Inr (Some ''a0'', None)"
    by (simp add: Indexer_resolve_def managed_eval)
  have b: "Indexer_bounds (ManagedListAccessor [''a0'']) name_to_key_default None None
      = Inr (Some ''a0'', None)"
    by (simp add: Indexer_bounds_def r name_to_key_default_def)
  from Indexer_bounds_mapping [OF r b] r b show ?thesis by simp
qed

subsection \<open>A name the collection does not hold\<close>




subsection \<open>The in-memory accessor's answers\<close>


text \<open>
  Claim C8, as stated, fails in its clause on a name that has no position in the
  collection: the list holds \<^verbatim>\<open>"a0"\<close> and \<^verbatim>\<open>"a2"\<close>, the name \<^verbatim>\<open>"a1"\<close> is not stored,
  and \<^verbatim>\<open>before("a1")\<close> answers \<^verbatim>\<open>"a0"\<close> and \<^verbatim>\<open>after("a1")\<close> answers \<^verbatim>\<open>"a2"\<close>,
  not absent.
\<close>

theorem before_unstored_counterexample:
  "''a1'' \<notin> set [''a0'', ''a2'']
   \<and> ManagedListAccessor_before [''a0'', ''a2''] (Some ''a1'') = Inr (Some ''a0'')
   \<and> ManagedListAccessor_after [''a0'', ''a2''] (Some ''a1'') = Inr (Some ''a2'')"
  by (simp add: managed_eval)

text \<open>
  Claim C8, amended. On the sorted list of stored keys, \<^verbatim>\<open>first()\<close> answers the
  smallest stored key and \<^verbatim>\<open>last()\<close> the largest, each absent when the list is
  empty. For every name, stored or not, \<^verbatim>\<open>before(name)\<close> answers the greatest stored
  key strictly below the name, and is absent exactly when no stored key is below it
  (so when the name is first); \<^verbatim>\<open>after(name)\<close> answers the least stored key strictly
  above the name, and is absent exactly when no stored key is above it.
\<close>

theorem ManagedListAccessor_neighbours:
  assumes "sorted xs"
  shows "ManagedListAccessor_first xs = Inr (if xs = [] then None else Some (Min (set xs)))
    \<and> ManagedListAccessor_last xs = Inr (if xs = [] then None else Some (Max (set xs)))
    \<and> ManagedListAccessor_before xs (Some name) =
        Inr (if \<exists>x\<in>set xs. x < name then Some (Max {x \<in> set xs. x < name}) else None)
    \<and> ManagedListAccessor_after xs (Some name) =
        Inr (if \<exists>x\<in>set xs. name < x then Some (Min {x \<in> set xs. name < x}) else None)"
  using ManagedListAccessor_first_Min [OF assms] ManagedListAccessor_last_Max [OF assms]
    ManagedListAccessor_before_Max [OF assms, of name]
    ManagedListAccessor_after_Min [OF assms, of name]
  by simp

theorem ManagedListAccessor_neighbours_witness:
  "sorted [''a0'', ''a1'', ''a2'']
   \<and> ManagedListAccessor_first [''a0'', ''a1'', ''a2''] = Inr (Some ''a0'')
   \<and> ManagedListAccessor_last [''a0'', ''a1'', ''a2''] = Inr (Some ''a2'')
   \<and> ManagedListAccessor_before [''a0'', ''a1'', ''a2''] (Some ''a1'') = Inr (Some ''a0'')
   \<and> ManagedListAccessor_after [''a0'', ''a1'', ''a2''] (Some ''a1'') = Inr (Some ''a2'')"
proof -
  have s: "sorted [''a0'', ''a1'', ''a2'']" by simp
  from ManagedListAccessor_neighbours [OF s, of "''a1''"] s show ?thesis
    by (simp add: managed_eval)
qed

subsection \<open>Iterating an Indexer\<close>

text \<open>
  Claim C9, as stated, fails where it says that every item is visited: a list built
  from the keys \<^verbatim>\<open>["a0", "a0"]\<close> holds two items, and the iteration yields
  \<^verbatim>\<open>"a0"\<close> once, since \<^verbatim>\<open>after("a0")\<close> skips every key equal to \<^verbatim>\<open>"a0"\<close>.
\<close>

theorem iter_duplicate_counterexample:
  "length (ManagedListIndexer [''a0'', ''a0'']) = 2
   \<and> Indexer_iter 2 (ManagedListAccessor (ManagedListIndexer [''a0'', ''a0''])) = Some (Inr [''a0''])"
  by (simp add: ManagedListIndexer_def SortedList_def Indexer_iter_def managed_eval eval_nat_numeral)

text \<open>
  When the mapping raises on no name of the directory, the scan of \<^verbatim>\<open>_key_names\<close>
  ends with a dict.
\<close>

lemma key_names_loop_total:
  "\<forall>name\<in>set names. \<exists>r. name_to_key (Some name) = Inr r \<Longrightarrow>
     \<exists>d. key_names_loop name_to_key names acc = Inr d"
proof (induction names arbitrary: acc)
  case Nil
  then show ?case by simp
next
  case (Cons name names)
  then obtain r where r: "name_to_key (Some name) = Inr r" by auto
  from Cons have "\<And>acc. \<exists>d. key_names_loop name_to_key names acc = Inr d" by simp
  then show ?case using r by (cases r) simp_all
qed

text \<open>
  Claim C9, amended. Iterating an Indexer produces exactly the finite sequence of
  names obtained by starting from \<^verbatim>\<open>accessor.first()\<close> and repeatedly applying
  \<^verbatim>\<open>accessor.after\<close> to the previous result, stopping before the first absent result:
  given as many calls of \<^verbatim>\<open>after\<close> as the sequence is long, the loop ends with that
  sequence and with no other. Over the in-memory accessor the loop always ends and
  yields the distinct stored keys in increasing order. On an unchanging backend whose
  items have distinct keys it visits every item exactly once in key order: the
  in-memory list yields its keys as stored, and a directory yields its keyed names
  sorted by key. The iteration reads the backend only, so a second iteration over the
  unchanged backend is the same computation.
\<close>

theorem Indexer_iter_sequence:
  "(length ys \<le> fuel \<longrightarrow>
      (Indexer_iter fuel items = Some (Inr ys) \<longleftrightarrow> first_after_sequence items ys))
   \<and> (sorted xs \<and> length xs \<le> fuel \<longrightarrow>
      Indexer_iter fuel (ManagedListAccessor xs) = Some (Inr (sorted_list_of_set (set xs))))
   \<and> (sorted xs \<and> distinct xs \<and> length xs \<le> fuel \<longrightarrow>
      Indexer_iter fuel (ManagedListAccessor xs) = Some (Inr xs))
   \<and> ((\<forall>name\<in>set dir. \<exists>r. name_to_key (Some name) = Inr r)
        \<and> distinct (map fst (keyed_names name_to_key dir)) \<and> length dir \<le> fuel \<longrightarrow>
      Indexer_iter fuel (FileAccessor name_to_key dir) =
        Some (Inr (map snd (sort_key fst (keyed_names name_to_key dir)))))"
proof -
  have files: "Indexer_iter fuel (FileAccessor name_to_key dir) =
        Some (Inr (map snd (sort_key fst (keyed_names name_to_key dir))))"
    if total: "\<forall>name\<in>set dir. \<exists>r. name_to_key (Some name) = Inr r"
      and dist: "distinct (map fst (keyed_names name_to_key dir))"
      and fuel: "length dir \<le> fuel"
  proof -
    from key_names_loop_total [OF total] obtain d where
      "FileAccessor_key_names name_to_key dir = Inr d"
      by (auto simp: FileAccessor_key_names_def)
    then show ?thesis using dist fuel by (rule Indexer_iter_file)
  qed
  show ?thesis
    using Indexer_iter_iff_sequence [of ys fuel items] Indexer_iter_managed [of xs fuel]
      Indexer_iter_managed_distinct [of xs fuel] files
    by blast
qed

theorem Indexer_iter_sequence_witness:
  "Indexer_iter 3 (ManagedListAccessor [''a0'', ''a1'', ''a2'']) = Some (Inr [''a0'', ''a1'', ''a2''])
   \<and> first_after_sequence (ManagedListAccessor [''a0'', ''a1'', ''a2'']) [''a0'', ''a1'', ''a2'']
   \<and> sorted [''a0'', ''a1'', ''a2''] \<and> distinct [''a0'', ''a1'', ''a2'']
   \<and> length [''a0'', ''a1'', ''a2''] \<le> (3::nat)
   \<and> keyed_names get_key_from_name [''a1--b'', ''readme'', ''a0--a'']
       = [(''a1'', ''a1--b''), (''a0'', ''a0--a'')]
   \<and> Indexer_iter 3 (FileAccessor get_key_from_name [''a1--b'', ''readme'', ''a0--a''])
       = Some (Inr [''a0--a'', ''a1--b''])"
proof -
  have keyed: "keyed_names get_key_from_name [''a1--b'', ''readme'', ''a0--a'']
      = [(''a1'', ''a1--b''), (''a0'', ''a0--a'')]"
    by (simp add: get_key_from_name_def)
  have total: "\<forall>name\<in>set [''a1--b'', ''readme'', ''a0--a''].
      \<exists>r. get_key_from_name (Some name) = Inr r"
    by (simp add: get_key_from_name_def)
  note inst = Indexer_iter_sequence [of "[''a0'', ''a1'', ''a2'']" 3
      "ManagedListAccessor [''a0'', ''a1'', ''a2'']" "[''a0'', ''a1'', ''a2'']"
      "[''a1--b'', ''readme'', ''a0--a'']" get_key_from_name]
  have run: "Indexer_iter 3 (ManagedListAccessor [''a0'', ''a1'', ''a2''])
      = Some (Inr [''a0'', ''a1'', ''a2''])"
    using inst by simp
  have seq: "first_after_sequence (ManagedListAccessor [''a0'', ''a1'', ''a2''])
      [''a0'', ''a1'', ''a2'']"
    using inst run by simp
  have dir: "Indexer_iter 3 (FileAccessor get_key_from_name [''a1--b'', ''readme'', ''a0--a''])
      = Some (Inr [''a0--a'', ''a1--b''])"
    using inst total keyed by simp
  from run seq dir keyed show ?thesis by simp
qed

subsection \<open>ManagedListIndexer keeps its list sorted\<close>

text \<open>The list a \<^verbatim>\<open>ManagedListIndexer\<close> starts from is sorted, whatever keys it is given.\<close>

lemma ManagedListIndexer_sorted: "sorted (ManagedListIndexer keys)"
  by (simp add: ManagedListIndexer_def SortedList_def)

text \<open>
  The inherited \<^verbatim>\<open>insert_at_start\<close> and \<^verbatim>\<open>insert_at_end\<close>, run on the owning indexer, are
  the Indexer's own with the returned key added to the list.
\<close>

lemma ManagedListIndexer_insert_at_start_inherited:
  "ManagedListIndexer_insert_at_start generate lst =
     (case Indexer_insert_at_start (ManagedListAccessor lst) name_to_key_default generate of
        Inl e \<Rightarrow> (Inl e, lst)
      | Inr new_idx \<Rightarrow> (Inr new_idx, SortedList_add lst new_idx))"
  by (simp add: ManagedListIndexer_insert_at_start_def Indexer_insert_at_start_def
      ManagedListIndexer_insert_def ManagedListAccessor_def split: sum.splits)

lemma ManagedListIndexer_insert_at_end_inherited:
  "ManagedListIndexer_insert_at_end generate lst =
     (case Indexer_insert_at_end (ManagedListAccessor lst) name_to_key_default generate of
        Inl e \<Rightarrow> (Inl e, lst)
      | Inr new_idx \<Rightarrow> (Inr new_idx, SortedList_add lst new_idx))"
  by (simp add: ManagedListIndexer_insert_at_end_def Indexer_insert_at_end_def
      ManagedListIndexer_insert_def ManagedListAccessor_def split: sum.splits)









subsection \<open>Key generation: the order check and the starting key\<close>

text \<open>
  Claim C3. When both bounds are present and the lower one is not strictly below the
  upper one, key generation fails with \<^verbatim>\<open>InvalidOrder\<close> and returns no key;
  \<^verbatim>\<open>insert\<close> hands the failure to its caller as it is, whatever way the two bounds
  were obtained, and \<^verbatim>\<open>ManagedListIndexer.insert\<close> leaves its list unchanged. When the
  lower bound is strictly below the upper one, the result is not \<^verbatim>\<open>InvalidOrder\<close>.
\<close>

theorem InvalidOrder_propagates:
  "(\<not> a < b \<longrightarrow> generate_key_between midpoint (Some a) (Some b) = Inl InvalidOrder)
   \<and> (a < b \<longrightarrow> generate_key_between midpoint (Some a) (Some b) \<noteq> Inl InvalidOrder)
   \<and> (Indexer_bounds items name_to_key after_name before_name = Inr (Some a, Some b) \<and> \<not> a < b \<longrightarrow>
        Indexer_insert items name_to_key (generate_key_between midpoint) after_name before_name
          = Inl InvalidOrder)
   \<and> (Indexer_bounds items name_to_key after_name before_name = Inr (Some a, Some b) \<and> a < b \<longrightarrow>
        Indexer_insert items name_to_key (generate_key_between midpoint) after_name before_name
          \<noteq> Inl InvalidOrder)
   \<and> (\<not> a < b \<longrightarrow>
        ManagedListIndexer_insert (generate_key_between midpoint) lst (Some a) (Some b)
          = (Inl InvalidOrder, lst))"
  by (simp add: generate_key_between_def Indexer_insert_def ManagedListIndexer_insert_def
      Indexer_bounds_def Indexer_resolve_def name_to_key_default_def)

theorem InvalidOrder_propagates_witness:
  "generate_key_between (\<lambda>lo hi. ''a1'') (Some ''b'') (Some ''a'') = Inl InvalidOrder
   \<and> \<not> ''b'' < ''a''
   \<and> generate_key_between (\<lambda>lo hi. ''a1'') (Some ''a0'') (Some ''a2'') = Inr ''a1''
   \<and> ''a0'' < ''a2''
   \<and> Indexer_bounds (ManagedListAccessor [''a0'', ''a2'']) name_to_key_default (Some ''b'') (Some ''a'')
       = Inr (Some ''b'', Some ''a'')
   \<and> Indexer_insert (ManagedListAccessor [''a0'', ''a2'']) name_to_key_default
       (generate_key_between (\<lambda>lo hi. ''a1'')) (Some ''b'') (Some ''a'') = Inl InvalidOrder
   \<and> ManagedListIndexer_insert (generate_key_between (\<lambda>lo hi. ''a1'')) [''a0'', ''a2''] (Some ''b'') (Some ''a'')
       = (Inl InvalidOrder, [''a0'', ''a2''])"
  using InvalidOrder_propagates [of "''b''" "''a''" "\<lambda>lo hi. ''a1''" "ManagedListAccessor [''a0'', ''a2'']"
      name_to_key_default "Some ''b''" "Some ''a''" "[''a0'', ''a2'']"]
    InvalidOrder_propagates [of "''a0''" "''a2''" "\<lambda>lo hi. ''a1''" "ManagedListAccessor [''a0'', ''a2'']"
      name_to_key_default "Some ''a0''" "Some ''a2''" "[''a0'', ''a2'']"]
  by (simp add: Indexer_bounds_def Indexer_resolve_def name_to_key_default_def
      generate_key_between_def)

lemma start_key_value: "start_key = ''a0''"
  by (simp add: start_key_def integer_part_alphabet_def base_62_digits_def)

text \<open>
  Claim C4, as stated, fails for a mapping that answers a key for the absent name:
  on the empty list, \<^verbatim>\<open>insert()\<close> hands the generator that key as both bounds, and the
  call fails with \<^verbatim>\<open>InvalidOrder\<close>.
\<close>

theorem insert_on_empty_counterexample:
  "acc_last (ManagedListAccessor []) = Inr None
   \<and> Indexer_insert (ManagedListAccessor []) name_to_key_floor
        (generate_key_between (\<lambda>lo hi. ''a1'')) None None = Inl InvalidOrder"
  by (simp add: Indexer_insert_def Indexer_bounds_def Indexer_resolve_def managed_eval
      name_to_key_floor_def generate_key_between_def)

text \<open>
  Claim C4, amended. On an empty collection (\<^verbatim>\<open>last()\<close> answers absent), \<^verbatim>\<open>insert()\<close>
  without arguments, under a mapping that sends the absent name to the absent key as
  the default mapping does, succeeds and returns the canonical starting key; so does
  \<^verbatim>\<open>ManagedListIndexer.insert()\<close> on the empty list, which then holds that key. The
  key is the same for every such collection; its first character is the middle symbol
  of the integer-part alphabet, and under the default alphabet the key is \<^verbatim>\<open>"a0"\<close>.
\<close>

theorem insert_on_empty:
  "(acc_last items = Inr None \<and> name_to_key None = Inr None \<longrightarrow>
      Indexer_insert items name_to_key (generate_key_between midpoint) None None = Inr start_key)
   \<and> ManagedListIndexer_insert (generate_key_between midpoint) (ManagedListIndexer []) None None
       = (Inr start_key, [start_key])
   \<and> hd start_key = integer_part_alphabet ! (length integer_part_alphabet div 2)
   \<and> start_key = ''a0''"
proof -
  have "Indexer_insert items name_to_key (generate_key_between midpoint) None None = Inr start_key"
    if "acc_last items = Inr None" "name_to_key None = Inr None"
    using that
    by (simp add: Indexer_insert_def Indexer_bounds_def Indexer_resolve_def generate_key_between_def)
  moreover have "ManagedListIndexer_insert (generate_key_between midpoint) (ManagedListIndexer [])
      None None = (Inr start_key, [start_key])"
    by (simp add: Indexer_insert_def Indexer_bounds_def Indexer_resolve_def generate_key_between_def
        ManagedListIndexer_insert_def ManagedListIndexer_def SortedList_def SortedList_add_def
        ManagedListAccessor_def ManagedListAccessor_last_def name_to_key_default_def)
  moreover have "hd start_key = integer_part_alphabet ! (length integer_part_alphabet div 2)"
    by (simp add: start_key_def)
  ultimately show ?thesis using start_key_value by simp
qed

theorem insert_on_empty_witness:
  "acc_last (ManagedListAccessor []) = Inr None \<and> name_to_key_default None = Inr None
   \<and> Indexer_insert (ManagedListAccessor []) name_to_key_default
       (generate_key_between (\<lambda>lo hi. ''a1'')) None None = Inr ''a0''
   \<and> ManagedListIndexer_insert (generate_key_between (\<lambda>lo hi. ''a1'')) (ManagedListIndexer []) None None
       = (Inr ''a0'', [''a0''])
   \<and> integer_part_alphabet ! (length integer_part_alphabet div 2) = CHR ''a''"
proof -
  have "acc_last (ManagedListAccessor []) = Inr None" "name_to_key_default None = Inr None"
    by (simp_all add: ManagedListAccessor_def ManagedListAccessor_last_def name_to_key_default_def)
  note empty = this
  note inst = insert_on_empty [of "ManagedListAccessor []" name_to_key_default "\<lambda>lo hi. ''a1''"]
  have key: "start_key = ''a0''" using inst by simp
  have "integer_part_alphabet ! (length integer_part_alphabet div 2) = hd start_key"
    using inst by simp
  then have "integer_part_alphabet ! (length integer_part_alphabet div 2) = CHR ''a''"
    by (simp add: key)
  then show ?thesis using inst empty by (simp add: key)
qed

subsection \<open>FileAccessor and a name without a key\<close>

text \<open>
  Claim C5 at a failing input. The directory holds the file \<^verbatim>\<open>a0--a\<close>; the mapping is
  the one of the repository's test, which answers \<^verbatim>\<open>None\<close> for the name \<^verbatim>\<open>readme\<close>.
  \<^verbatim>\<open>FileAccessor.after("readme")\<close> hands that \<^verbatim>\<open>None\<close> to the sorted list of keys,
  whose binary search compares it with \<^verbatim>\<open>"a0"\<close>: the call raises \<^verbatim>\<open>TypeError\<close>
  rather than answering \<^verbatim>\<open>None\<close>, and so do \<^verbatim>\<open>before\<close> and an \<^verbatim>\<open>insert\<close> after
  that name.
\<close>

theorem FileAccessor_unresolved_name_raises:
  "get_key_from_name (Some ''readme'') = Inr None
   \<and> FileAccessor_keys get_key_from_name [''a0--a''] = Inr [''a0'']
   \<and> FileAccessor_after get_key_from_name [''a0--a''] (Some ''readme'') = Inl TypeError
   \<and> FileAccessor_before get_key_from_name [''a0--a''] (Some ''readme'') = Inl TypeError
   \<and> Indexer_insert (FileAccessor get_key_from_name [''a0--a'']) get_key_from_name generate
        (Some ''readme'') None = Inl TypeError"
  by (simp add: FileAccessor_def FileAccessor_after_def FileAccessor_before_def FileAccessor_keys_def
      FileAccessor_key_names_def get_key_from_name_def SortedList_def managed_eval
      Indexer_insert_def Indexer_bounds_def Indexer_resolve_def)

end
